theory Spec2Isabelle
  imports Main "HOL-Library.Multiset" "HOL-Library.Sublist"
begin

text \<open>
  A shallow embedding of the rate limiter (\<^verbatim>\<open>src/services/rateLimiter.ts\<close>) and of three
  parts of \<^verbatim>\<open>src/services/gptService.ts\<close>: the retry wrapper, the shuffle of a
  question's options and the chunk loop of the streaming call. The definitions come
  first, section by section as the source has them; the properties follow.
\<close>

section \<open>Rate limiter (src/services/rateLimiter.ts)\<close>

text \<open>
  \<^verbatim>\<open>interface RateLimit { max; windowMs; current; resetTime }\<close>.
  The field \<^verbatim>\<open>max\<close> is named \<open>max_r\<close> here, since \<open>max\<close> is a HOL constant.
  Times are milliseconds since the epoch, counters are JavaScript numbers holding
  integers; both are modelled as \<open>int\<close>.
\<close>

record RateLimit =
  max_r :: int
  windowMs :: int
  current :: int
  resetTime :: int

record UserRateLimits =
  minutely :: RateLimit
  hourly :: RateLimit
  daily :: RateLimit

text \<open>
  Every call of \<^verbatim>\<open>Date.now()\<close> is a separate reading of the clock. One call of
  \<^verbatim>\<open>checkRateLimit\<close> reads it up to six times: three times in \<^verbatim>\<open>createLimit\<close>
  when the session is new, and once in each \<^verbatim>\<open>updateLimit\<close> that is reached.
  The readings are an explicit argument; nothing is assumed about their order.
\<close>

record clock =
  created_minutely :: int
  created_hourly :: int
  created_daily :: int
  now_minutely :: int
  now_hourly :: int
  now_daily :: int

type_synonym limits = "string \<rightharpoonup> UserRateLimits"

definition createLimit :: "int \<Rightarrow> int \<Rightarrow> int \<Rightarrow> RateLimit" where
  "createLimit now mx wMs =
     \<lparr>max_r = mx, windowMs = wMs, current = 0, resetTime = now + wMs\<rparr>"

definition createUserLimits :: "clock \<Rightarrow> UserRateLimits" where
  "createUserLimits clk =
     \<lparr>minutely = createLimit (created_minutely clk) 15 (60 * 1000),
      hourly = createLimit (created_hourly clk) 250 (60 * 60 * 1000),
      daily = createLimit (created_daily clk) 500 (24 * 60 * 60 * 1000)\<rparr>"

text \<open>
  \<^verbatim>\<open>updateLimit\<close> mutates the window in place and returns a boolean; the model
  returns the boolean and the window as it is after the call. \<open>afterReset\<close> is its
  first statement (\<^verbatim>\<open>if (now > limit.resetTime) { ... }\<close>), the pending reset.
\<close>

definition afterReset :: "int \<Rightarrow> RateLimit \<Rightarrow> RateLimit" where
  "afterReset now limit =
     (if now > resetTime limit
      then limit\<lparr>current := 0, resetTime := now + windowMs limit\<rparr>
      else limit)"

definition updateLimit :: "int \<Rightarrow> RateLimit \<Rightarrow> bool \<times> RateLimit" where
  "updateLimit now limit =
     (let limit1 = afterReset now limit
      in if current limit1 \<ge> max_r limit1 then (False, limit1)
         else (True, limit1\<lparr>current := current limit1 + 1\<rparr>))"

text \<open>
  \<^verbatim>\<open>checkRateLimit\<close>: the three windows are chained with \<^verbatim>\<open>&&\<close>, so a window is
  only evaluated when every window before it has returned true. The windows are objects
  held by the map, so what \<^verbatim>\<open>updateLimit\<close> writes stays in the map.
\<close>

definition checkRateLimit :: "clock \<Rightarrow> string \<Rightarrow> limits \<Rightarrow> bool \<times> limits" where
  "checkRateLimit clk sessionId lims =
     (let userLimits = (case lims sessionId of
                          None \<Rightarrow> createUserLimits clk
                        | Some ul \<Rightarrow> ul);
          m = updateLimit (now_minutely clk) (minutely userLimits);
          ul1 = userLimits\<lparr>minutely := snd m\<rparr>
      in if \<not> fst m then (False, lims(sessionId \<mapsto> ul1))
         else
           (let h = updateLimit (now_hourly clk) (hourly ul1);
                ul2 = ul1\<lparr>hourly := snd h\<rparr>
            in if \<not> fst h then (False, lims(sessionId \<mapsto> ul2))
               else
                 (let d = updateLimit (now_daily clk) (daily ul2);
                      ul3 = ul2\<lparr>daily := snd d\<rparr>
                  in (fst d, lims(sessionId \<mapsto> ul3)))))"

record LimitInfo =
  remaining :: int
  resetIn :: int

record RateLimitInfo =
  minutely_info :: LimitInfo
  hourly_info :: LimitInfo
  daily_info :: LimitInfo

definition limitInfo :: "int \<Rightarrow> RateLimit \<Rightarrow> LimitInfo" where
  "limitInfo now l =
     \<lparr>remaining = max 0 (max_r l - current l), resetIn = max 0 (resetTime l - now)\<rparr>"

text \<open>
  \<^verbatim>\<open>getRateLimitInfo\<close> returns the description together with the map as the call
  leaves it, so that its not writing to the map is a statement about the model.
\<close>

definition getRateLimitInfo :: "int \<Rightarrow> string \<Rightarrow> limits \<Rightarrow> RateLimitInfo \<times> limits" where
  "getRateLimitInfo now sessionId lims =
     (case lims sessionId of
        None \<Rightarrow>
          (\<lparr>minutely_info = \<lparr>remaining = 15, resetIn = 0\<rparr>,
            hourly_info = \<lparr>remaining = 250, resetIn = 0\<rparr>,
            daily_info = \<lparr>remaining = 500, resetIn = 0\<rparr>\<rparr>, lims)
      | Some ul \<Rightarrow>
          (\<lparr>minutely_info = limitInfo now (minutely ul),
            hourly_info = limitInfo now (hourly ul),
            daily_info = limitInfo now (daily ul)\<rparr>, lims))"

text \<open>
  The states of the limiter: the map starts empty (\<^verbatim>\<open>new Map()\<close>) and is only
  written by \<^verbatim>\<open>checkRateLimit\<close>.
\<close>

inductive reachable :: "limits \<Rightarrow> bool" where
  initial: "reachable Map.empty"
| admit: "reachable lims \<Longrightarrow> reachable (snd (checkRateLimit clk sessionId lims))"

text \<open>\<open>admits\<close> runs \<^verbatim>\<open>checkRateLimit\<close> once per clock reading in the list.\<close>

fun admits :: "clock list \<Rightarrow> string \<Rightarrow> limits \<Rightarrow> limits" where
  "admits [] sessionId lims = lims"
| "admits (clk # clks) sessionId lims =
     admits clks sessionId (snd (checkRateLimit clk sessionId lims))"

definition at_time :: "int \<Rightarrow> clock" where
  "at_time t = \<lparr>created_minutely = t, created_hourly = t, created_daily = t,
                now_minutely = t, now_hourly = t, now_daily = t\<rparr>"

definition burst :: "nat \<Rightarrow> int \<Rightarrow> clock list" where
  "burst n t = replicate n (at_time t)"

text \<open>
  What holds of every session the limiter has stored: the caps and durations written by
  \<^verbatim>\<open>createUserLimits\<close> (nothing assigns \<^verbatim>\<open>max\<close> or \<^verbatim>\<open>windowMs\<close> afterwards) and
  counters between 0 and the cap.
\<close>

definition caps_ok :: "UserRateLimits \<Rightarrow> bool" where
  "caps_ok ul \<longleftrightarrow>
     max_r (minutely ul) = 15 \<and> windowMs (minutely ul) = 60000 \<and>
     max_r (hourly ul) = 250 \<and> windowMs (hourly ul) = 3600000 \<and>
     max_r (daily ul) = 500 \<and> windowMs (daily ul) = 86400000 \<and>
     0 \<le> current (minutely ul) \<and> current (minutely ul) \<le> 15 \<and>
     0 \<le> current (hourly ul) \<and> current (hourly ul) \<le> 250 \<and>
     0 \<le> current (daily ul) \<and> current (daily ul) \<le> 500"

text \<open>
  Two auxiliary functions in which \<^verbatim>\<open>checkRateLimit\<close> is restated for the proofs
  (lemma \<open>checkRateLimit_chain\<close>): \<open>lookupOrCreate\<close> is the session's entry after the
  first statement, \<open>chain\<close> is the chain of \<^verbatim>\<open>&&\<close> on that entry.
\<close>

definition lookupOrCreate :: "clock \<Rightarrow> string \<Rightarrow> limits \<Rightarrow> UserRateLimits" where
  "lookupOrCreate clk sid lims = (case lims sid of None \<Rightarrow> createUserLimits clk | Some ul \<Rightarrow> ul)"

definition chain :: "clock \<Rightarrow> UserRateLimits \<Rightarrow> bool \<times> UserRateLimits" where
  "chain clk ul =
     (let m = updateLimit (now_minutely clk) (minutely ul);
          h = updateLimit (now_hourly clk) (hourly ul);
          d = updateLimit (now_daily clk) (daily ul)
      in if \<not> fst m then (False, ul\<lparr>minutely := snd m\<rparr>)
         else if \<not> fst h then (False, ul\<lparr>minutely := snd m, hourly := snd h\<rparr>)
         else (fst d, ul\<lparr>minutely := snd m, hourly := snd h, daily := snd d\<rparr>))"

text \<open>
  \<open>counters\<close> reads the three counters of a session. Concrete histories of the session \<^verbatim>\<open>s\<close>, each from the empty map and with times that
  do not go back. \<open>day_schedule\<close> is 500 calls in bursts of at most 15 per minute: 240
  in the first hour, 240 in the second, 20 in the third. \<open>minute_full\<close> is the map after
  15 calls at time 0; \<open>hour_stale\<close> after a call at time 0 and 15 calls at time 3599990.
\<close>

definition counters :: "UserRateLimits \<Rightarrow> int \<times> int \<times> int" where
  "counters ul = (current (minutely ul), current (hourly ul), current (daily ul))"

definition day_schedule :: "clock list" where
  "day_schedule =
     concat (map (\<lambda>g. burst 15 (int g * 60001)) [0..<16]) @
     concat (map (\<lambda>g. burst 15 (3600001 + int g * 60001)) [0..<16]) @
     burst 15 7200002 @ burst 5 7260003"

definition day_full :: limits where
  "day_full = admits day_schedule ''s'' Map.empty"

definition minute_full :: limits where
  "minute_full = admits (burst 15 0) ''s'' Map.empty"

definition hour_stale :: limits where
  "hour_stale = admits (at_time 0 # burst 15 3599990) ''s'' Map.empty"

section \<open>Strings\<close>

text \<open>
  JavaScript strings are modelled as \<open>string\<close>, one \<open>char\<close> per code unit below 256.
  \<^verbatim>\<open>s.includes(pat)\<close>, \<^verbatim>\<open>s.startsWith(c)\<close>, \<^verbatim>\<open>s.endsWith(c)\<close> for a one-character
  \<^verbatim>\<open>c\<close>, and \<^verbatim>\<open>s.trim()\<close>, which removes white space and line terminators from both
  ends (tab, line feed, vertical tab, form feed, carriage return, space and the
  no-break space are the ones below 256).
\<close>

fun includes_str :: "string \<Rightarrow> string \<Rightarrow> bool" where
  "includes_str [] pat = (pat = [])"
| "includes_str (c # cs) pat = (take (length pat) (c # cs) = pat \<or> includes_str cs pat)"

definition startsWith :: "string \<Rightarrow> char \<Rightarrow> bool" where
  "startsWith s c = (case s of [] \<Rightarrow> False | x # _ \<Rightarrow> x = c)"

definition endsWith :: "string \<Rightarrow> char \<Rightarrow> bool" where
  "endsWith s c = (case rev s of [] \<Rightarrow> False | x # _ \<Rightarrow> x = c)"

definition is_space :: "char \<Rightarrow> bool" where
  "is_space c = (of_char c \<in> {9, 10, 11, 12, 13, 32, 160 :: nat})"

definition trim :: "string \<Rightarrow> string" where
  "trim s = rev (dropWhile is_space (rev (dropWhile is_space s)))"

section \<open>Retry wrapper (GPTService.retryWithDelay)\<close>

text \<open>
  The operation \<^verbatim>\<open>fn\<close> is effectful: its \<open>k\<close>-th invocation (from 0) either throws
  an error, of which only the message is kept (\<open>Inl\<close>), or returns a value (\<open>Inr\<close>).
  The wrapper's outcome is the value returned or the message of the error thrown,
  together with the number of invocations of \<^verbatim>\<open>fn\<close> and the delays waited, in order.
  \<^verbatim>\<open>retries\<close> and \<^verbatim>\<open>attempt\<close> are integers. The loop is
  \<^verbatim>\<open>for (let attempt = 1; attempt <= retries; attempt++)\<close>.
\<close>

type_synonym 'a operation = "nat \<Rightarrow> string + 'a"

function retryLoop ::
  "'a operation \<Rightarrow> int \<Rightarrow> int \<Rightarrow> int \<Rightarrow> nat \<Rightarrow> int list \<Rightarrow> (string + 'a) \<times> nat \<times> int list"
where
  "retryLoop fn retries delay attempt calls delays =
     (if attempt \<le> retries then
        (case fn calls of
           Inr v \<Rightarrow> (Inr v, calls + 1, delays)
         | Inl e \<Rightarrow>
             if attempt = retries
             then (Inl ''API request failed after multiple attempts'', calls + 1, delays)
             else retryLoop fn retries delay (attempt + 1) (calls + 1) (delays @ [delay]))
      else (Inl ''Unexpected error in retry logic'', calls, delays))"
  by pat_completeness auto
termination
  by (relation "measure (\<lambda>(fn, retries, delay, attempt, calls, delays). nat (retries + 1 - attempt))")
     auto

text \<open>An operation that throws the same error at every invocation.\<close>

definition always_fails :: "nat operation" where
  "always_fails k = Inl ''quota exceeded''"

definition retryWithDelay ::
  "'a operation \<Rightarrow> int \<Rightarrow> int \<Rightarrow> (string + 'a) \<times> nat \<times> int list" where
  "retryWithDelay fn retries delay = retryLoop fn retries delay 1 0 []"

section \<open>Shuffling the options of a question (GPTService.shuffleOptionsAndAnswer)\<close>

text \<open>
  Of a \<^verbatim>\<open>Question\<close> the function reads \<^verbatim>\<open>options\<close> and \<^verbatim>\<open>correctAnswer\<close>; the
  other fields are copied by the spread \<^verbatim>\<open>{ ...question, options, correctAnswer }\<close>, as
  a record update does. \<^verbatim>\<open>correctAnswer\<close> is a number that nothing has validated yet when
  the function runs, so it is an \<open>int\<close>. The random source is an argument: \<open>rnd i\<close> is
  the value of \<^verbatim>\<open>Math.floor(Math.random() * (i + 1))\<close> in the iteration with index
  \<open>i\<close>.
\<close>

record Question =
  question_text :: string
  options :: "string list"
  correctAnswer :: int

text \<open>Reading a JavaScript array at a number: \<^verbatim>\<open>undefined\<close> (\<open>None\<close>) out of range.\<close>

definition at_index :: "'a list \<Rightarrow> int \<Rightarrow> 'a option" where
  "at_index xs i = (if 0 \<le> i \<and> i < int (length xs) then Some (xs ! nat i) else None)"

text \<open>
  \<open>shuffleLoop rnd k\<close> is the loop \<^verbatim>\<open>for (let i = ...; i > 0; i--)\<close> from \<open>i = k\<close>
  down to 1.
\<close>

fun shuffleLoop :: "(nat \<Rightarrow> nat) \<Rightarrow> nat \<Rightarrow> string list \<Rightarrow> int \<Rightarrow> string list \<times> int" where
  "shuffleLoop rnd 0 opts correctIndex = (opts, correctIndex)"
| "shuffleLoop rnd (Suc k) opts correctIndex =
     (let i = Suc k;
          j = rnd i;
          opts1 = opts[i := opts ! j, j := opts ! i];
          correctIndex1 = (if int i = correctIndex then int j
                           else if int j = correctIndex then int i
                           else correctIndex)
      in shuffleLoop rnd k opts1 correctIndex1)"

definition shuffleOptionsAndAnswer :: "(nat \<Rightarrow> nat) \<Rightarrow> Question \<Rightarrow> Question" where
  "shuffleOptionsAndAnswer rnd q =
     (let r = shuffleLoop rnd (length (options q) - 1) (options q) (correctAnswer q)
      in q\<lparr>options := fst r, correctAnswer := snd r\<rparr>)"

section \<open>Streaming decoder (the chunk loop of GPTService.streamExploreContent)\<close>

text \<open>
  JavaScript values as \<^verbatim>\<open>JSON.parse\<close> builds them, and \<^verbatim>\<open>undefined\<close>, which reading
  an absent property gives. Of numbers only equality is used, so they are integers here.
\<close>

datatype jsval =
    JUndefined
  | JNull
  | JBool bool
  | JNum int
  | JStr string
  | JArr "jsval list"
  | JObj "(string \<times> jsval) list"

datatype js_error = SyntaxError | TypeError

text \<open>
  \<^verbatim>\<open>JSON.parse\<close> belongs to the language, not to the repository: it is an argument of
  the model, a function that returns the value or \<open>None\<close> where \<^verbatim>\<open>JSON.parse\<close> throws
  a \<^verbatim>\<open>SyntaxError\<close>.
\<close>

type_synonym parser = "string \<Rightarrow> jsval option"

text \<open>
  \<^verbatim>\<open>v.key\<close>: a \<^verbatim>\<open>TypeError\<close> on \<^verbatim>\<open>null\<close> and \<^verbatim>\<open>undefined\<close>, the property of an
  object (the first pair with that key in the list), and \<^verbatim>\<open>undefined\<close> where there is
  none. The keys read by the decoder
  (\<^verbatim>\<open>topics\<close>, \<^verbatim>\<open>questions\<close>, \<^verbatim>\<open>name\<close>, \<^verbatim>\<open>text\<close>, \<^verbatim>\<open>type\<close>, \<^verbatim>\<open>detail\<close>) are not properties
  of strings, numbers, booleans or arrays.
\<close>

fun getProp :: "jsval \<Rightarrow> string \<Rightarrow> js_error + jsval" where
  "getProp JUndefined key = Inl TypeError"
| "getProp JNull key = Inl TypeError"
| "getProp (JObj kvs) key = (case map_of kvs key of None \<Rightarrow> Inr JUndefined | Some v \<Rightarrow> Inr v)"
| "getProp v key = Inr JUndefined"

text \<open>
  \<^verbatim>\<open>a === b\<close>. Primitive values are compared by value. Objects and arrays are compared
  by reference: the decoder compares a name stored from an earlier entry with the name of
  the entry at hand, and \<^verbatim>\<open>JSON.parse\<close> builds a new object for every occurrence, so
  the two are never the same object.
\<close>

fun strict_eq :: "jsval \<Rightarrow> jsval \<Rightarrow> bool" where
  "strict_eq JUndefined JUndefined = True"
| "strict_eq JNull JNull = True"
| "strict_eq (JBool a) (JBool b) = (a = b)"
| "strict_eq (JNum a) (JNum b) = (a = b)"
| "strict_eq (JStr a) (JStr b) = (a = b)"
| "strict_eq a b = False"

text \<open>
  The entries pushed to \<^verbatim>\<open>currentTopics\<close> (\<^verbatim>\<open>{topic, type, reason}\<close>) and to
  \<^verbatim>\<open>currentQuestions\<close> (\<^verbatim>\<open>{question, type, context}\<close>), the argument of \<^verbatim>\<open>onChunk\<close>
  (\<^verbatim>\<open>{text, topics, questions}\<close>, \<open>None\<close> for \<^verbatim>\<open>undefined\<close>) and the variables of the
  loop. \<^verbatim>\<open>text\<close>, \<^verbatim>\<open>type\<close> and \<^verbatim>\<open>context\<close> are renamed: they are words of Isabelle or
  would be shared by two records.
\<close>

record TopicEntry =
  topic :: jsval
  type_t :: jsval
  reason :: jsval

record QuestionEntry =
  question :: jsval
  type_q :: jsval
  context_q :: jsval

record Snapshot =
  text_s :: string
  topics :: "TopicEntry list option"
  questions :: "QuestionEntry list option"

record StreamState =
  mainContent :: string
  jsonContent :: string
  currentTopics :: "TopicEntry list"
  currentQuestions :: "QuestionEntry list"
  isJsonSection :: bool

definition initialState :: StreamState where
  "initialState =
     \<lparr>mainContent = [], jsonContent = [], currentTopics = [], currentQuestions = [],
      isJsonSection = False\<rparr>"

text \<open>
  \<^verbatim>\<open>parsed.topics.forEach(...)\<close>: an entry is pushed unless some stored entry has the
  same name under \<^verbatim>\<open>===\<close>. Reading \<^verbatim>\<open>topic.name\<close> throws when the element is
  \<^verbatim>\<open>null\<close>; the loop stops there and what was pushed before stays pushed. The result is
  the error thrown, if any, and the array as the loop leaves it.
\<close>

fun addTopics :: "jsval list \<Rightarrow> TopicEntry list \<Rightarrow> js_error option \<times> TopicEntry list" where
  "addTopics [] cur = (None, cur)"
| "addTopics (t # ts) cur =
     (case (getProp t ''name'', getProp t ''type'', getProp t ''detail'') of
        (Inr name, Inr ty, Inr detail) \<Rightarrow>
          if list_ex (\<lambda>x. strict_eq (topic x) name) cur then addTopics ts cur
          else addTopics ts (cur @ [\<lparr>topic = name, type_t = ty, reason = detail\<rparr>])
      | _ \<Rightarrow> (Some TypeError, cur))"

fun addQuestions :: "jsval list \<Rightarrow> QuestionEntry list \<Rightarrow> js_error option \<times> QuestionEntry list" where
  "addQuestions [] cur = (None, cur)"
| "addQuestions (q # qs) cur =
     (case (getProp q ''text'', getProp q ''type'', getProp q ''detail'') of
        (Inr txt, Inr ty, Inr detail) \<Rightarrow>
          if list_ex (\<lambda>x. strict_eq (question x) txt) cur then addQuestions qs cur
          else addQuestions qs (cur @ [\<lparr>question = txt, type_q = ty, context_q = detail\<rparr>])
      | _ \<Rightarrow> (Some TypeError, cur))"

text \<open>
  \<^verbatim>\<open>if (v && Array.isArray(v)) { v.forEach(...) }\<close>: the condition holds exactly of
  arrays.
\<close>

definition processTopics :: "jsval \<Rightarrow> TopicEntry list \<Rightarrow> js_error option \<times> TopicEntry list" where
  "processTopics v cur = (case v of JArr xs \<Rightarrow> addTopics xs cur | _ \<Rightarrow> (None, cur))"

definition processQuestions ::
  "jsval \<Rightarrow> QuestionEntry list \<Rightarrow> js_error option \<times> QuestionEntry list" where
  "processQuestions v cur = (case v of JArr xs \<Rightarrow> addQuestions xs cur | _ \<Rightarrow> (None, cur))"

definition snapshot :: "StreamState \<Rightarrow> Snapshot" where
  "snapshot st =
     \<lparr>text_s = trim (mainContent st),
      topics = (if length (currentTopics st) > 0 then Some (currentTopics st) else None),
      questions = (if length (currentQuestions st) > 0 then Some (currentQuestions st) else None)\<rparr>"

text \<open>
  The body of the \<^verbatim>\<open>try\<close> block, after \<^verbatim>\<open>jsonContent += content\<close>: the error thrown
  inside it, if any, the state it leaves and what it passes to \<^verbatim>\<open>onChunk\<close>.
\<close>

definition tryParse :: "parser \<Rightarrow> StreamState \<Rightarrow> js_error option \<times> StreamState \<times> Snapshot list" where
  "tryParse parse st =
     (if includes_str (jsonContent st) ''}'' then
        (let jsonStr = trim (jsonContent st) in
         if startsWith jsonStr (CHR ''{'') \<and> endsWith jsonStr (CHR ''}'') then
           (case parse jsonStr of
              None \<Rightarrow> (Some SyntaxError, st, [])
            | Some parsed \<Rightarrow>
                (case getProp parsed ''topics'' of
                   Inl e \<Rightarrow> (Some e, st, [])
                 | Inr tv \<Rightarrow>
                     (let t = processTopics tv (currentTopics st);
                          st1 = st\<lparr>currentTopics := snd t\<rparr>
                      in if fst t \<noteq> None then (fst t, st1, [])
                         else
                           (case getProp parsed ''questions'' of
                              Inl e \<Rightarrow> (Some e, st1, [])
                            | Inr qv \<Rightarrow>
                                (let q = processQuestions qv (currentQuestions st1);
                                     st2 = st1\<lparr>currentQuestions := snd q\<rparr>
                                 in if fst q \<noteq> None then (fst q, st2, [])
                                    else (None, st2, [snapshot st2]))))))
         else (None, st, []))
      else (None, st, []))"

text \<open>
  One iteration of \<^verbatim>\<open>for await (const chunk of result.stream)\<close> on the text of the
  chunk. A chunk that contains \<^verbatim>\<open>---\<close> sets the flag and is left by \<^verbatim>\<open>continue\<close>. In the
  JSON section the \<^verbatim>\<open>catch\<close> logs the error of the \<^verbatim>\<open>try\<close> block and the loop goes on.
\<close>

definition processChunk :: "parser \<Rightarrow> StreamState \<Rightarrow> string \<Rightarrow> StreamState \<times> Snapshot list" where
  "processChunk parse st content =
     (if includes_str content ''---'' then (st\<lparr>isJsonSection := True\<rparr>, [])
      else if isJsonSection st then
        (let st1 = st\<lparr>jsonContent := jsonContent st @ content\<rparr>;
             r = tryParse parse st1
         in (fst (snd r), snd (snd r)))
      else
        (let st1 = st\<lparr>mainContent := mainContent st @ content\<rparr>
         in (st1, [snapshot st1])))"

text \<open>
  What the stream delivers: the text of a chunk, or an error (the iteration or
  \<^verbatim>\<open>chunk.text()\<close> throws), which leaves the loop for the \<^verbatim>\<open>catch\<close> of the attempt.
  \<open>consume\<close> is the whole loop: the message of the error that ended it, if any, the
  state at the end and everything passed to \<^verbatim>\<open>onChunk\<close>, in order.
\<close>

datatype chunk = Text string | Failure string

fun consume :: "parser \<Rightarrow> chunk list \<Rightarrow> StreamState \<Rightarrow> string option \<times> StreamState \<times> Snapshot list" where
  "consume parse [] st = (None, st, [])"
| "consume parse (Failure msg # cs) st = (Some msg, st, [])"
| "consume parse (Text content # cs) st =
     (let p = processChunk parse st content;
          r = consume parse cs (fst p)
      in (fst r, fst (snd r), snd p @ snd (snd r)))"

text \<open>
  Notions for stating the decoder's properties. \<open>by_value\<close> holds of the values that
  \<^verbatim>\<open>===\<close> compares by value, among them every string; \<open>topicNames\<close> and
  \<open>questionTexts\<close> are the names and texts of that kind held by a list of entries.
  \<open>stateAfter\<close> and \<open>emissions\<close> are the variables of the loop and the arguments passed
  to \<^verbatim>\<open>onChunk\<close> once the loop, started afresh, has consumed the chunks.
\<close>

definition by_value :: "jsval \<Rightarrow> bool" where
  "by_value v = (case v of JArr xs \<Rightarrow> False | JObj kvs \<Rightarrow> False | _ \<Rightarrow> True)"

definition topicNames :: "TopicEntry list \<Rightarrow> jsval list" where
  "topicNames ts = filter by_value (map topic ts)"

definition questionTexts :: "QuestionEntry list \<Rightarrow> jsval list" where
  "questionTexts qs = filter by_value (map question qs)"

definition topics_of :: "Snapshot \<Rightarrow> TopicEntry list" where
  "topics_of snap = (case topics snap of None \<Rightarrow> [] | Some ts \<Rightarrow> ts)"

definition questions_of :: "Snapshot \<Rightarrow> QuestionEntry list" where
  "questions_of snap = (case questions snap of None \<Rightarrow> [] | Some qs \<Rightarrow> qs)"

definition stateAfter :: "parser \<Rightarrow> chunk list \<Rightarrow> StreamState" where
  "stateAfter parse chunks = fst (snd (consume parse chunks initialState))"

definition emissions :: "parser \<Rightarrow> chunk list \<Rightarrow> Snapshot list" where
  "emissions parse chunks = snd (snd (consume parse chunks initialState))"

definition no_marker :: "string \<Rightarrow> bool" where
  "no_marker f = (\<not> includes_str f ''---'')"

text \<open>
  \<open>readable\<close> holds of the values whose properties can be read without a
  \<^verbatim>\<open>TypeError\<close>, \<open>elements\<close> is the list of elements of an array and empty for any
  other value, \<open>propOf kvs key\<close> is the property \<^verbatim>\<open>key\<close> of the object with the
  properties \<open>kvs\<close>. \<open>jsonBuffers\<close> lists the trimmed contents of \<^verbatim>\<open>jsonContent\<close>
  after each append, given the texts of the chunks, the flag and the buffer at the start.
\<close>

definition readable :: "jsval \<Rightarrow> bool" where
  "readable v = (v \<noteq> JNull \<and> v \<noteq> JUndefined)"

definition elements :: "jsval \<Rightarrow> jsval list" where
  "elements v = (case v of JArr xs \<Rightarrow> xs | _ \<Rightarrow> [])"

definition propOf :: "(string \<times> jsval) list \<Rightarrow> string \<Rightarrow> jsval" where
  "propOf kvs key = (case map_of kvs key of None \<Rightarrow> JUndefined | Some v \<Rightarrow> v)"

fun jsonBuffers :: "string list \<Rightarrow> bool \<Rightarrow> string \<Rightarrow> string list" where
  "jsonBuffers [] inJson buf = []"
| "jsonBuffers (f # fs) inJson buf =
     (if includes_str f ''---'' then jsonBuffers fs True buf
      else if inJson then trim (buf @ f) # jsonBuffers fs True (buf @ f)
      else jsonBuffers fs False buf)"

text \<open>
  Concrete inputs: JSON texts with the values \<^verbatim>\<open>JSON.parse\<close> gives for them, collected in
  the parser \<open>json_table\<close>, which rejects every other text.
\<close>

definition entryA :: jsval where
  "entryA = JObj [(''name'', JStr ''A''), (''type'', JStr ''x''), (''detail'', JStr ''d'')]"

definition entryB :: jsval where
  "entryB = JObj [(''name'', JStr ''B''), (''type'', JStr ''y''), (''detail'', JStr ''e'')]"

definition entryA2 :: jsval where
  "entryA2 = JObj [(''name'', JStr ''A''), (''type'', JStr ''z''), (''detail'', JStr ''f'')]"

definition payload_one_head :: string where
  \<open>payload_one_head = ''{"topics":[{"name":"A","type":"x","detail":"d"}''\<close>

definition payload_dup :: string where
  \<open>payload_dup = ''{"topics":[{"name":"A","type":"x","detail":"d"},{"name":"B","type":"y","detail":"e"},{"name":"A","type":"z","detail":"f"}]}''\<close>

definition payload_null :: string where
  \<open>payload_null = ''{"topics":[null]}''\<close>

definition json_table :: parser where
  "json_table = map_of
     [(payload_one_head @ '']}'', JObj [(''topics'', JArr [entryA])]),
      (payload_dup, JObj [(''topics'', JArr [entryA, entryB, entryA2])]),
      (payload_null, JObj [(''topics'', JArr [JNull])])]"

definition topicA :: TopicEntry where
  "topicA = \<lparr>topic = JStr ''A'', type_t = JStr ''x'', reason = JStr ''d''\<rparr>"

definition topicB :: TopicEntry where
  "topicB = \<lparr>topic = JStr ''B'', type_t = JStr ''y'', reason = JStr ''e''\<rparr>"

definition split_fragments :: "string list" where
  "split_fragments = [''Hello '', ''world'', ''---'', payload_one_head, '']}'']"

definition dup_chunks :: "chunk list" where
  "dup_chunks = [Text ''Hello '', Text ''world'', Text ''---'', Text payload_dup, Text '' '']"

section \<open>Properties of the rate limiter\<close>

lemma updateLimit_fields:
  "max_r (snd (updateLimit now l)) = max_r l"
  "windowMs (snd (updateLimit now l)) = windowMs l"
  by (simp_all add: updateLimit_def afterReset_def Let_def)

lemma updateLimit_bounds:
  "0 \<le> current l \<Longrightarrow> current l \<le> max_r l \<Longrightarrow>
   0 \<le> current (snd (updateLimit now l)) \<and> current (snd (updateLimit now l)) \<le> max_r l"
  by (simp add: updateLimit_def afterReset_def Let_def)

lemma caps_ok_create: "caps_ok (createUserLimits clk)"
  by (simp add: caps_ok_def createUserLimits_def createLimit_def)

lemma checkRateLimit_chain:
  "checkRateLimit clk sid lims =
     (fst (chain clk (lookupOrCreate clk sid lims)),
      lims(sid \<mapsto> snd (chain clk (lookupOrCreate clk sid lims))))"
  by (simp add: checkRateLimit_def chain_def lookupOrCreate_def Let_def)

lemma checkRateLimit_other:
  "sid' \<noteq> sid \<Longrightarrow> snd (checkRateLimit clk sid lims) sid' = lims sid'"
  by (simp add: checkRateLimit_chain)

lemma caps_ok_chain: "caps_ok ul \<Longrightarrow> caps_ok (snd (chain clk ul))"
  using updateLimit_bounds[of "minutely ul" "now_minutely clk"]
      updateLimit_bounds[of "hourly ul" "now_hourly clk"]
      updateLimit_bounds[of "daily ul" "now_daily clk"]
  by (simp add: chain_def Let_def caps_ok_def updateLimit_fields)

lemma caps_ok_lookupOrCreate:
  "(\<And>ul. lims sid = Some ul \<Longrightarrow> caps_ok ul) \<Longrightarrow> caps_ok (lookupOrCreate clk sid lims)"
  by (cases "lims sid") (simp_all add: lookupOrCreate_def caps_ok_create)

lemma caps_ok_step:
  assumes "\<And>ul. lims sid = Some ul \<Longrightarrow> caps_ok ul"
      and "snd (checkRateLimit clk sid lims) sid = Some ul'"
  shows "caps_ok ul'"
  using assms(2) caps_ok_chain[OF caps_ok_lookupOrCreate[of lims sid clk], OF assms(1)]
  by (auto simp add: checkRateLimit_chain)

lemma reachable_caps_ok: "reachable lims \<Longrightarrow> lims sid = Some ul \<Longrightarrow> caps_ok ul"
proof (induction arbitrary: sid ul rule: reachable.induct)
  case initial
  then show ?case by simp
next
  case (admit lims clk sessionId)
  show ?case
  proof (cases "sid = sessionId")
    case True
    then show ?thesis using admit caps_ok_step[of lims sessionId clk ul] by blast
  next
    case False
    then show ?thesis using admit checkRateLimit_other[of sid sessionId clk lims] by simp
  qed
qed

lemma reachable_admits: "reachable lims \<Longrightarrow> reachable (admits clks sid lims)"
  by (induction clks arbitrary: lims) (auto intro: reachable.admit)

lemma day_full_s:
  "day_full ''s'' = Some
     \<lparr>minutely = \<lparr>max_r = 15, windowMs = 60000, current = 5, resetTime = 7320003\<rparr>,
      hourly = \<lparr>max_r = 250, windowMs = 3600000, current = 20, resetTime = 10800002\<rparr>,
      daily = \<lparr>max_r = 500, windowMs = 86400000, current = 500, resetTime = 86400000\<rparr>\<rparr>"
  by code_simp

lemma minute_full_s:
  "minute_full ''s'' = Some
     \<lparr>minutely = \<lparr>max_r = 15, windowMs = 60000, current = 15, resetTime = 60000\<rparr>,
      hourly = \<lparr>max_r = 250, windowMs = 3600000, current = 15, resetTime = 3600000\<rparr>,
      daily = \<lparr>max_r = 500, windowMs = 86400000, current = 15, resetTime = 86400000\<rparr>\<rparr>"
  by code_simp

lemma hour_stale_s:
  "hour_stale ''s'' = Some
     \<lparr>minutely = \<lparr>max_r = 15, windowMs = 60000, current = 15, resetTime = 3659990\<rparr>,
      hourly = \<lparr>max_r = 250, windowMs = 3600000, current = 16, resetTime = 3600000\<rparr>,
      daily = \<lparr>max_r = 500, windowMs = 86400000, current = 16, resetTime = 86400000\<rparr>\<rparr>"
  by code_simp

lemmas eval_check = checkRateLimit_chain lookupOrCreate_def chain_def updateLimit_def
  afterReset_def at_time_def Let_def

text \<open>
  Claim C1, as stated, fails. After the 500 admitted calls of \<open>day_schedule\<close> the
  session has used 5 of its minute, 20 of its hour and all 500 of its day quota. The next
  call, in the same millisecond as the last one, is denied by the daily window alone, and
  the session's minute and hour counters have gone up to 6 and 21: the denied call has
  consumed minute and hour quota.
\<close>

theorem checkRateLimit_denied_consumes:
  "reachable day_full \<and>
   map_option counters (day_full ''s'') = Some (5, 20, 500) \<and>
   fst (checkRateLimit (at_time 7260003) ''s'' day_full) = False \<and>
   map_option counters (snd (checkRateLimit (at_time 7260003) ''s'' day_full) ''s'') =
     Some (6, 21, 500)"
proof -
  have "reachable day_full"
    unfolding day_full_def by (rule reachable_admits[OF reachable.initial])
  then show ?thesis
    by (simp add: eval_check day_full_s counters_def)
qed

text \<open>
  Claim C1, amended: what a denied call of \<^verbatim>\<open>checkRateLimit\<close> writes. Only a stored
  session can be denied. The windows are evaluated in the order minute, hour, day, each
  after its pending reset, and the first one at its cap denies. The denying window is
  left as its pending reset leaves it (its counter is not incremented), the windows after
  it are neither read nor written, and each window before it has been incremented by one.
  So a call denied by the minute window increments nothing, a call denied by the hourly
  window consumes one unit of minute quota, and a call denied by the daily window consumes
  one unit of minute and one of hour quota.
\<close>

theorem checkRateLimit_denied:
  assumes "\<not> fst (checkRateLimit clk sessionId lims)"
  shows "\<exists>ul M H D. lims sessionId = Some ul \<and>
           M = afterReset (now_minutely clk) (minutely ul) \<and>
           H = afterReset (now_hourly clk) (hourly ul) \<and>
           D = afterReset (now_daily clk) (daily ul) \<and>
           (current M \<ge> max_r M \<and>
              snd (checkRateLimit clk sessionId lims) =
                lims(sessionId \<mapsto> ul\<lparr>minutely := M\<rparr>)
            \<or> current M < max_r M \<and> current H \<ge> max_r H \<and>
              snd (checkRateLimit clk sessionId lims) =
                lims(sessionId \<mapsto> ul\<lparr>minutely := M\<lparr>current := current M + 1\<rparr>, hourly := H\<rparr>)
            \<or> current M < max_r M \<and> current H < max_r H \<and> current D \<ge> max_r D \<and>
              snd (checkRateLimit clk sessionId lims) =
                lims(sessionId \<mapsto> ul\<lparr>minutely := M\<lparr>current := current M + 1\<rparr>,
                                       hourly := H\<lparr>current := current H + 1\<rparr>,
                                       daily := D\<rparr>))"
proof (cases "lims sessionId")
  case None
  then have "fst (checkRateLimit clk sessionId lims)"
    by (simp add: eval_check createUserLimits_def createLimit_def)
  with assms show ?thesis by simp
next
  case (Some ul)
  then show ?thesis
    using assms by (auto simp add: eval_check split: if_splits)
qed

text \<open>
  The amended claim C1 at a concrete denied call: the full minute window of
  \<open>minute_full\<close> denies at time 1000, and the map is left as it was.
\<close>

theorem checkRateLimit_denied_witness:
  "\<not> fst (checkRateLimit (at_time 1000) ''s'' minute_full) \<and>
   snd (checkRateLimit (at_time 1000) ''s'' minute_full) = minute_full"
proof -
  have d: "\<not> fst (checkRateLimit (at_time 1000) ''s'' minute_full)"
    by (simp add: eval_check minute_full_s)
  show ?thesis
    using checkRateLimit_denied[OF d] d
    by (auto simp add: minute_full_s afterReset_def at_time_def fun_upd_idem_iff)
qed

text \<open>
  Claim C4: for a session stored by the limiter, if a window's counter has reached its
  cap (15 for the minute window, 250 for the hourly, 500 for the daily) and the clock
  reading is not past that window's reset time, then \<^verbatim>\<open>updateLimit\<close> on that window
  returns false and the call of \<^verbatim>\<open>checkRateLimit\<close> returns false.
\<close>

theorem checkRateLimit_cap_denies:
  assumes "reachable lims" and "lims sessionId = Some ul"
  shows "(current (minutely ul) \<ge> 15 \<and> \<not> now_minutely clk > resetTime (minutely ul) \<longrightarrow>
            \<not> fst (updateLimit (now_minutely clk) (minutely ul)) \<and>
            \<not> fst (checkRateLimit clk sessionId lims)) \<and>
         (current (hourly ul) \<ge> 250 \<and> \<not> now_hourly clk > resetTime (hourly ul) \<longrightarrow>
            \<not> fst (updateLimit (now_hourly clk) (hourly ul)) \<and>
            \<not> fst (checkRateLimit clk sessionId lims)) \<and>
         (current (daily ul) \<ge> 500 \<and> \<not> now_daily clk > resetTime (daily ul) \<longrightarrow>
            \<not> fst (updateLimit (now_daily clk) (daily ul)) \<and>
            \<not> fst (checkRateLimit clk sessionId lims))"
  using reachable_caps_ok[OF assms] assms(2)
  by (simp add: caps_ok_def checkRateLimit_chain lookupOrCreate_def chain_def updateLimit_def
      afterReset_def Let_def)

text \<open>
  Claim C4 at a concrete state: after 15 admitted calls at time 0 the minute window is
  full, and a call at time 60000, the last millisecond of the window, is denied.
\<close>

theorem checkRateLimit_cap_denies_witness:
  "reachable minute_full \<and>
   map_option minutely (minute_full ''s'') =
     Some \<lparr>max_r = 15, windowMs = 60000, current = 15, resetTime = 60000\<rparr> \<and>
   \<not> fst (updateLimit 60000 \<lparr>max_r = 15, windowMs = 60000, current = 15, resetTime = 60000\<rparr>) \<and>
   \<not> fst (checkRateLimit (at_time 60000) ''s'' minute_full)"
proof -
  have r: "reachable minute_full"
    unfolding minute_full_def by (rule reachable_admits[OF reachable.initial])
  show ?thesis
    using r checkRateLimit_cap_denies[OF r minute_full_s, of "at_time 60000"]
    by (simp add: minute_full_s at_time_def)
qed

text \<open>
  Claim C5, as stated, fails for the hourly and daily windows. In \<open>hour_stale\<close> the
  session was created at time 0 and made 15 more calls at time 3599990, so its minute
  window is full until 3659990 and its hourly window ends at 3600000. A call at time
  3600001 is past the hourly reset time, but the minute window denies first and the
  hourly window is never evaluated: its counter stays 16 and its reset time 3600000.
\<close>

theorem checkRateLimit_stale_hour_counterexample:
  "reachable hour_stale \<and>
   map_option hourly (hour_stale ''s'') =
     Some \<lparr>max_r = 250, windowMs = 3600000, current = 16, resetTime = 3600000\<rparr> \<and>
   now_hourly (at_time 3600001) > 3600000 \<and>
   map_option hourly (snd (checkRateLimit (at_time 3600001) ''s'' hour_stale) ''s'') =
     Some \<lparr>max_r = 250, windowMs = 3600000, current = 16, resetTime = 3600000\<rparr>"
proof -
  have "reachable hour_stale"
    unfolding hour_stale_def by (rule reachable_admits[OF reachable.initial])
  then show ?thesis
    by (simp add: eval_check hour_stale_s)
qed

text \<open>
  Claim C5, amended: for a session stored by the limiter, if the clock reading is past a
  window's reset time and every window before it in the order minute, hour, day returns
  true (nothing is required for the minute window), then \<^verbatim>\<open>checkRateLimit\<close> evaluates
  that window with its counter reset to 0, whatever it was, and its reset time set to the
  reading plus the window's duration; the window admits the call and the call's own
  increment leaves the counter at 1.
\<close>

theorem checkRateLimit_applies_reset:
  assumes "reachable lims" and "lims sessionId = Some ul"
  shows "\<exists>ul'. snd (checkRateLimit clk sessionId lims) sessionId = Some ul' \<and>
     (now_minutely clk > resetTime (minutely ul) \<longrightarrow>
        updateLimit (now_minutely clk) (minutely ul) =
          (True, (minutely ul)\<lparr>current := 0 + 1, resetTime := now_minutely clk + 60 * 1000\<rparr>) \<and>
        minutely ul' = snd (updateLimit (now_minutely clk) (minutely ul))) \<and>
     (fst (updateLimit (now_minutely clk) (minutely ul)) \<and>
      now_hourly clk > resetTime (hourly ul) \<longrightarrow>
        updateLimit (now_hourly clk) (hourly ul) =
          (True, (hourly ul)\<lparr>current := 0 + 1, resetTime := now_hourly clk + 60 * 60 * 1000\<rparr>) \<and>
        hourly ul' = snd (updateLimit (now_hourly clk) (hourly ul))) \<and>
     (fst (updateLimit (now_minutely clk) (minutely ul)) \<and>
      fst (updateLimit (now_hourly clk) (hourly ul)) \<and>
      now_daily clk > resetTime (daily ul) \<longrightarrow>
        updateLimit (now_daily clk) (daily ul) =
          (True, (daily ul)\<lparr>current := 0 + 1, resetTime := now_daily clk + 24 * 60 * 60 * 1000\<rparr>) \<and>
        daily ul' = snd (updateLimit (now_daily clk) (daily ul)))"
  using reachable_caps_ok[OF assms] assms(2)
  by (simp add: caps_ok_def checkRateLimit_chain lookupOrCreate_def chain_def updateLimit_def
      afterReset_def Let_def)

text \<open>
  The amended claim C5 at a concrete call: the full minute window of \<open>minute_full\<close>,
  read at time 60001, is reset and then counts this call.
\<close>

theorem checkRateLimit_applies_reset_witness:
  "reachable minute_full \<and>
   map_option minutely (minute_full ''s'') =
     Some \<lparr>max_r = 15, windowMs = 60000, current = 15, resetTime = 60000\<rparr> \<and>
   map_option minutely (snd (checkRateLimit (at_time 60001) ''s'' minute_full) ''s'') =
     Some \<lparr>max_r = 15, windowMs = 60000, current = 1, resetTime = 120001\<rparr>"
proof -
  have r: "reachable minute_full"
    unfolding minute_full_def by (rule reachable_admits[OF reachable.initial])
  show ?thesis
    using r checkRateLimit_applies_reset[OF r minute_full_s, of "at_time 60001"]
    by (auto simp add: minute_full_s at_time_def)
qed

text \<open>
  Claim C6: for a session the limiter has not stored, \<^verbatim>\<open>getRateLimitInfo\<close> returns
  remaining 15, 250 and 500 with \<^verbatim>\<open>resetIn\<close> 0 for the three windows, and the map is
  what it was before the call.
\<close>

theorem getRateLimitInfo_unknown:
  assumes "lims sessionId = None"
  shows "getRateLimitInfo now sessionId lims =
           (\<lparr>minutely_info = \<lparr>remaining = 15, resetIn = 0\<rparr>,
             hourly_info = \<lparr>remaining = 250, resetIn = 0\<rparr>,
             daily_info = \<lparr>remaining = 500, resetIn = 0\<rparr>\<rparr>, lims)"
  using assms by (simp add: getRateLimitInfo_def)

text \<open>Claim C6 at a session that \<open>minute_full\<close> does not hold.\<close>

theorem getRateLimitInfo_unknown_witness:
  "minute_full ''t'' = None \<and>
   getRateLimitInfo 42 ''t'' minute_full =
           (\<lparr>minutely_info = \<lparr>remaining = 15, resetIn = 0\<rparr>,
             hourly_info = \<lparr>remaining = 250, resetIn = 0\<rparr>,
             daily_info = \<lparr>remaining = 500, resetIn = 0\<rparr>\<rparr>, minute_full)"
proof -
  have n: "minute_full ''t'' = None"
    by code_simp
  show ?thesis
    using n getRateLimitInfo_unknown[of minute_full "''t''" 42] by simp
qed

text \<open>
  Claim C10: \<^verbatim>\<open>getRateLimitInfo\<close> leaves the map as it is, so it applies no pending
  reset. For a stored session and a window whose reset time has passed, it reports
  \<^verbatim>\<open>resetIn\<close> 0 and \<^verbatim>\<open>remaining\<close> computed from the counter as stored, although
  \<^verbatim>\<open>updateLimit\<close> on that window at the same time would reset it and return true.
\<close>

theorem getRateLimitInfo_no_reset:
  assumes "reachable lims" and "lims sessionId = Some ul"
  shows "snd (getRateLimitInfo now sessionId lims) = lims \<and>
     (now > resetTime (minutely ul) \<longrightarrow>
        minutely_info (fst (getRateLimitInfo now sessionId lims)) =
          \<lparr>remaining = max 0 (15 - current (minutely ul)), resetIn = 0\<rparr> \<and>
        fst (updateLimit now (minutely ul))) \<and>
     (now > resetTime (hourly ul) \<longrightarrow>
        hourly_info (fst (getRateLimitInfo now sessionId lims)) =
          \<lparr>remaining = max 0 (250 - current (hourly ul)), resetIn = 0\<rparr> \<and>
        fst (updateLimit now (hourly ul))) \<and>
     (now > resetTime (daily ul) \<longrightarrow>
        daily_info (fst (getRateLimitInfo now sessionId lims)) =
          \<lparr>remaining = max 0 (500 - current (daily ul)), resetIn = 0\<rparr> \<and>
        fst (updateLimit now (daily ul)))"
  using reachable_caps_ok[OF assms] assms(2)
  by (simp add: caps_ok_def getRateLimitInfo_def limitInfo_def updateLimit_def afterReset_def
      Let_def)

text \<open>
  Claim C10 at a concrete state: with the minute window of \<open>minute_full\<close> full and
  past its reset time, \<^verbatim>\<open>getRateLimitInfo\<close> reports 0 remaining, and the call of
  \<^verbatim>\<open>checkRateLimit\<close> at the same time is admitted.
\<close>

theorem getRateLimitInfo_no_reset_witness:
  "reachable minute_full \<and>
   minutely_info (fst (getRateLimitInfo 60001 ''s'' minute_full)) =
     \<lparr>remaining = 0, resetIn = 0\<rparr> \<and>
   snd (getRateLimitInfo 60001 ''s'' minute_full) = minute_full \<and>
   fst (checkRateLimit (at_time 60001) ''s'' minute_full)"
proof -
  have r: "reachable minute_full"
    unfolding minute_full_def by (rule reachable_admits[OF reachable.initial])
  have c: "fst (checkRateLimit (at_time 60001) ''s'' minute_full)"
    by (simp add: eval_check minute_full_s)
  show ?thesis
    using r c getRateLimitInfo_no_reset[OF r minute_full_s, of 60001]
    by (simp add: minute_full_s)
qed

section \<open>Properties of the shuffle\<close>

lemma shuffleLoop_invariant:
  assumes "\<forall>i. rnd i \<le> i" and "k < length opts \<or> k = 0"
  shows "mset (fst (shuffleLoop rnd k opts c)) = mset opts \<and>
         at_index (fst (shuffleLoop rnd k opts c)) (snd (shuffleLoop rnd k opts c)) = at_index opts c"
  using assms(2)
proof (induction k arbitrary: opts c)
  case 0
  then show ?case by simp
next
  case (Suc k)
  let ?i = "Suc k" and ?j = "rnd (Suc k)"
  let ?opts1 = "opts[?i := opts ! ?j, ?j := opts ! ?i]"
  let ?c1 = "if int ?i = c then int ?j else if int ?j = c then int ?i else c"
  from Suc.prems have i: "?i < length opts" by simp
  from assms(1) have j: "?j \<le> ?i" by blast
  with i have j': "?j < length opts" by simp
  have m: "mset ?opts1 = mset opts"
    using i j' by (simp add: mset_swap)
  have len: "length ?opts1 = length opts" by simp
  have a: "at_index ?opts1 ?c1 = at_index opts c"
    using i j' by (auto simp add: at_index_def nth_list_update)
  have k: "k < length ?opts1 \<or> k = 0" using i by simp
  have step: "shuffleLoop rnd (Suc k) opts c = shuffleLoop rnd k ?opts1 ?c1"
    by (simp add: Let_def)
  show ?case
    unfolding step using Suc.IH[OF k, of ?c1] m a by simp
qed

text \<open>
  Claim C9: whatever the random draws (each within its range \<open>0..i\<close>), the options
  returned by \<^verbatim>\<open>shuffleOptionsAndAnswer\<close> are a permutation of the options given, and
  the option at the returned \<^verbatim>\<open>correctAnswer\<close> is the option at the given
  \<^verbatim>\<open>correctAnswer\<close> (both \<^verbatim>\<open>undefined\<close> when the given index is out of range).
\<close>

theorem shuffle_preserves_answer:
  assumes "\<forall>i. rnd i \<le> i"
  shows "mset (options (shuffleOptionsAndAnswer rnd q)) = mset (options q) \<and>
         at_index (options (shuffleOptionsAndAnswer rnd q))
                  (correctAnswer (shuffleOptionsAndAnswer rnd q)) =
           at_index (options q) (correctAnswer q)"
proof -
  have "length (options q) - 1 < length (options q) \<or> length (options q) - 1 = 0"
    by (cases "options q") simp_all
  from shuffleLoop_invariant[OF assms this] show ?thesis
    by (simp add: shuffleOptionsAndAnswer_def Let_def)
qed

text \<open>Claim C9 on four options with the draws \<open>rnd 3 = 1\<close>, \<open>rnd 2 = 1\<close>, \<open>rnd 1 = 0\<close>.\<close>

theorem shuffle_preserves_answer_witness:
  "(\<forall>i::nat. i div 2 \<le> i) \<and>
   shuffleOptionsAndAnswer (\<lambda>i. i div 2)
     \<lparr>question_text = ''q'', options = [''a'', ''b'', ''c'', ''d''], correctAnswer = 2\<rparr> =
     \<lparr>question_text = ''q'', options = [''c'', ''a'', ''d'', ''b''], correctAnswer = 0\<rparr> \<and>
   mset [''c'', ''a'', ''d'', ''b''] = mset [''a'', ''b'', ''c'', ''d''] \<and>
   at_index [''c'', ''a'', ''d'', ''b''] 0 = at_index [''a'', ''b'', ''c'', ''d''] 2"
proof -
  have h: "\<forall>i::nat. i div 2 \<le> i" by simp
  have e: "shuffleOptionsAndAnswer (\<lambda>i. i div 2)
     \<lparr>question_text = ''q'', options = [''a'', ''b'', ''c'', ''d''], correctAnswer = 2\<rparr> =
     \<lparr>question_text = ''q'', options = [''c'', ''a'', ''d'', ''b''], correctAnswer = 0\<rparr>"
    by code_simp
  show ?thesis
    using h e shuffle_preserves_answer[OF h,
        of "\<lparr>question_text = ''q'', options = [''a'', ''b'', ''c'', ''d''], correctAnswer = 2\<rparr>"]
    by simp
qed

section \<open>Properties of the retry wrapper\<close>

lemma retryLoop_always_fails:
  assumes "\<forall>k. \<exists>e. fn k = Inl e" and "1 \<le> attempt" and "attempt \<le> retries"
  shows "retryLoop fn retries delay attempt calls delays =
           (Inl ''API request failed after multiple attempts'',
            calls + nat (retries + 1 - attempt),
            delays @ replicate (nat (retries - attempt)) delay)"
  using assms
proof (induction fn retries delay attempt calls delays rule: retryLoop.induct)
  case (1 fn retries delay attempt calls delays)
  from "1.prems"(1) obtain e where e: "fn calls = Inl e" by blast
  show ?case
  proof (cases "attempt = retries")
    case True
    then show ?thesis
      using e by (subst retryLoop.simps) (simp del: retryLoop.simps)
  next
    case False
    with "1.prems" have lt: "attempt + 1 \<le> retries" by simp
    have n: "nat (retries - attempt) = Suc (nat (retries - (attempt + 1)))"
      using lt by simp
    have n2: "nat (retries + 1 - attempt) = Suc (nat (retries + 1 - (attempt + 1)))"
      using lt by simp
    have "retryLoop fn retries delay attempt calls delays =
          retryLoop fn retries delay (attempt + 1) (calls + 1) (delays @ [delay])"
      using e False "1.prems"
      by (subst retryLoop.simps) (simp del: retryLoop.simps)
    also have "\<dots> = (Inl ''API request failed after multiple attempts'',
            (calls + 1) + nat (retries + 1 - (attempt + 1)),
            (delays @ [delay]) @ replicate (nat (retries - (attempt + 1))) delay)"
      using "1.IH"[OF _ e False "1.prems"(1)] "1.prems" lt by simp
    finally show ?thesis
      unfolding n n2 by (simp add: replicate_app_Cons_same)
  qed
qed

text \<open>
  Claim C3, amended: when every invocation of the operation throws, \<^verbatim>\<open>retryWithDelay\<close>
  invokes it exactly \<^verbatim>\<open>retries\<close> times (not at all when \<^verbatim>\<open>retries\<close> is below 1), waits
  \<^verbatim>\<open>delay\<close> between two invocations, and then throws an error whose message is a fixed
  text, the same whatever the operation threw: \<^verbatim>\<open>API request failed after multiple attempts\<close>,
  or \<^verbatim>\<open>Unexpected error in retry logic\<close> when \<^verbatim>\<open>retries\<close> is below 1.
\<close>

theorem retryWithDelay_exhausted:
  assumes "\<forall>k. \<exists>e. fn k = Inl e"
  shows "retryWithDelay fn retries delay =
           (Inl (if 1 \<le> retries then ''API request failed after multiple attempts''
                 else ''Unexpected error in retry logic''),
            nat retries, replicate (nat retries - 1) delay)"
proof (cases "1 \<le> retries")
  case True
  have "nat (retries - 1) = nat retries - 1" by simp
  with retryLoop_always_fails[OF assms, of 1 retries delay 0 "[]"] True show ?thesis
    by (simp add: retryWithDelay_def del: retryLoop.simps)
next
  case False
  then show ?thesis by (simp add: retryWithDelay_def)
qed

text \<open>The amended claim C3 on an operation that always throws, with three attempts.\<close>

theorem retryWithDelay_exhausted_witness:
  "always_fails 0 = Inl ''quota exceeded'' \<and>
   retryWithDelay always_fails 3 2000 =
     (Inl ''API request failed after multiple attempts'', 3, [2000, 2000])"
proof -
  have h: "\<forall>k. \<exists>e. always_fails k = Inl e"
    by (simp add: always_fails_def)
  have a: "always_fails 0 = Inl ''quota exceeded''"
    by (simp add: always_fails_def)
  show ?thesis
    using a retryWithDelay_exhausted[OF h, of 3 2000]
    by (simp add: numeral_eq_Suc)
qed

text \<open>
  Claim C3, as stated, fails: an operation that throws \<^verbatim>\<open>quota exceeded\<close> on each of
  its three invocations makes \<^verbatim>\<open>retryWithDelay\<close> throw an error whose message does not
  contain that text.
\<close>

theorem retryWithDelay_drops_message:
  "always_fails 2 = Inl ''quota exceeded'' \<and>
   retryWithDelay always_fails 3 2000 =
     (Inl ''API request failed after multiple attempts'', 3, [2000, 2000]) \<and>
   \<not> includes_str ''API request failed after multiple attempts'' ''quota exceeded''"
  by code_simp

section \<open>Properties of the streaming decoder\<close>

lemma strict_eq_by_value: "by_value b \<Longrightarrow> strict_eq a b = (a = b)"
  by (cases a; cases b) (simp_all add: by_value_def)

lemma list_ex_strict_eq:
  "by_value n \<Longrightarrow> list_ex (\<lambda>x. strict_eq (topic x) n) cur = (n \<in> set (topicNames cur))"
  by (auto simp add: list_ex_iff strict_eq_by_value topicNames_def)

lemma list_ex_strict_eq_q:
  "by_value n \<Longrightarrow> list_ex (\<lambda>x. strict_eq (question x) n) cur = (n \<in> set (questionTexts cur))"
  by (auto simp add: list_ex_iff strict_eq_by_value questionTexts_def)

lemma addTopics_distinct:
  "distinct (topicNames cur) \<Longrightarrow> distinct (topicNames (snd (addTopics xs cur)))"
proof (induction xs arbitrary: cur)
  case Nil
  then show ?case by simp
next
  case (Cons t ts)
  show ?case
  proof (cases "getProp t ''name''")
    case (Inl e)
    then show ?thesis using Cons.prems by simp
  next
    case name: (Inr n)
    show ?thesis
    proof (cases "getProp t ''type''")
      case (Inl e)
      then show ?thesis using Cons.prems name by simp
    next
      case ty: (Inr y)
      show ?thesis
      proof (cases "getProp t ''detail''")
        case (Inl e)
        then show ?thesis using Cons.prems name ty by simp
      next
        case d: (Inr dv)
        show ?thesis
        proof (cases "list_ex (\<lambda>x. strict_eq (topic x) n) cur")
          case True
          then show ?thesis using Cons name ty d by simp
        next
          case False
          have "distinct (topicNames (cur @ [\<lparr>topic = n, type_t = y, reason = dv\<rparr>]))"
            using Cons.prems False list_ex_strict_eq[of n cur]
            by (auto simp add: topicNames_def)
          from Cons.IH[OF this] show ?thesis using name ty d False by simp
        qed
      qed
    qed
  qed
qed

lemma addTopics_extends: "prefix cur (snd (addTopics xs cur))"
proof (induction xs arbitrary: cur)
  case Nil
  then show ?case by simp
next
  case (Cons t ts)
  show ?case
    using Cons.IH[of cur] Cons.IH[of "cur @ [\<lparr>topic = n, type_t = y, reason = d\<rparr>]" for n y d]
    by (auto split: sum.splits dest: append_prefixD)
qed

lemma addQuestions_distinct:
  "distinct (questionTexts cur) \<Longrightarrow> distinct (questionTexts (snd (addQuestions xs cur)))"
proof (induction xs arbitrary: cur)
  case Nil
  then show ?case by simp
next
  case (Cons t ts)
  show ?case
  proof (cases "getProp t ''text''")
    case (Inl e)
    then show ?thesis using Cons.prems by simp
  next
    case name: (Inr n)
    show ?thesis
    proof (cases "getProp t ''type''")
      case (Inl e)
      then show ?thesis using Cons.prems name by simp
    next
      case ty: (Inr y)
      show ?thesis
      proof (cases "getProp t ''detail''")
        case (Inl e)
        then show ?thesis using Cons.prems name ty by simp
      next
        case d: (Inr dv)
        show ?thesis
        proof (cases "list_ex (\<lambda>x. strict_eq (question x) n) cur")
          case True
          then show ?thesis using Cons name ty d by simp
        next
          case False
          have "distinct (questionTexts (cur @ [\<lparr>question = n, type_q = y, context_q = dv\<rparr>]))"
            using Cons.prems False list_ex_strict_eq_q[of n cur]
            by (auto simp add: questionTexts_def)
          from Cons.IH[OF this] show ?thesis using name ty d False by simp
        qed
      qed
    qed
  qed
qed

lemma addQuestions_extends: "prefix cur (snd (addQuestions xs cur))"
proof (induction xs arbitrary: cur)
  case Nil
  then show ?case by simp
next
  case (Cons t ts)
  show ?case
    using Cons.IH[of cur] Cons.IH[of "cur @ [\<lparr>question = n, type_q = y, context_q = d\<rparr>]" for n y d]
    by (auto split: sum.splits dest: append_prefixD)
qed

lemma processTopics_distinct:
  "distinct (topicNames cur) \<Longrightarrow> distinct (topicNames (snd (processTopics v cur)))"
  by (cases v) (simp_all add: processTopics_def addTopics_distinct)

lemma processTopics_extends: "prefix cur (snd (processTopics v cur))"
  by (cases v) (simp_all add: processTopics_def addTopics_extends)

lemma processQuestions_distinct:
  "distinct (questionTexts cur) \<Longrightarrow> distinct (questionTexts (snd (processQuestions v cur)))"
  by (cases v) (simp_all add: processQuestions_def addQuestions_distinct)

lemma processQuestions_extends: "prefix cur (snd (processQuestions v cur))"
  by (cases v) (simp_all add: processQuestions_def addQuestions_extends)

text \<open>What the try block can do to the state: only the two arrays change.\<close>

lemma tryParse_state:
  "\<exists>tv qv. fst (snd (tryParse parse st)) \<in>
     {st,
      st\<lparr>currentTopics := snd (processTopics tv (currentTopics st))\<rparr>,
      st\<lparr>currentTopics := snd (processTopics tv (currentTopics st)),
         currentQuestions := snd (processQuestions qv (currentQuestions st))\<rparr>}"
  by (auto simp add: tryParse_def Let_def split: option.splits sum.splits)

lemma tryParse_emits:
  "s \<in> set (snd (snd (tryParse parse st))) \<Longrightarrow> s = snapshot (fst (snd (tryParse parse st)))"
  by (auto simp add: tryParse_def Let_def split: option.splits sum.splits if_splits)

lemma getProp_readable: "readable t \<Longrightarrow> \<exists>v. getProp t key = Inr v"
  by (cases t) (simp_all add: readable_def split: option.splits)

lemma addTopics_readable: "list_all readable xs \<Longrightarrow> fst (addTopics xs cur) = None"
proof (induction xs arbitrary: cur)
  case Nil
  then show ?case by simp
next
  case (Cons t ts)
  from Cons.prems have r: "readable t" and rs: "list_all readable ts" by simp_all
  from getProp_readable[OF r] obtain n y d where
    "getProp t ''name'' = Inr n" "getProp t ''type'' = Inr y" "getProp t ''detail'' = Inr d"
    by blast
  then show ?case using Cons.IH[OF rs] by simp
qed

lemma addQuestions_readable: "list_all readable xs \<Longrightarrow> fst (addQuestions xs cur) = None"
proof (induction xs arbitrary: cur)
  case Nil
  then show ?case by simp
next
  case (Cons t ts)
  from Cons.prems have r: "readable t" and rs: "list_all readable ts" by simp_all
  from getProp_readable[OF r] obtain n y d where
    "getProp t ''text'' = Inr n" "getProp t ''type'' = Inr y" "getProp t ''detail'' = Inr d"
    by blast
  then show ?case using Cons.IH[OF rs] by simp
qed

lemma processTopics_elements: "processTopics v cur = addTopics (elements v) cur"
  by (cases v) (simp_all add: processTopics_def elements_def)

lemma processQuestions_elements: "processQuestions v cur = addQuestions (elements v) cur"
  by (cases v) (simp_all add: processQuestions_def elements_def)

lemma getProp_JObj: "getProp (JObj kvs) key = Inr (propOf kvs key)"
  by (simp add: propOf_def split: option.splits)

lemma includes_str_char: "includes_str s [c] = (c \<in> set s)"
  by (induction s) auto

lemma endsWith_mem: "endsWith s c \<Longrightarrow> c \<in> set s"
  by (cases "rev s") (auto simp add: endsWith_def dest: arg_cong[where f = set])

lemma set_trim: "set (trim s) \<subseteq> set s"
  by (auto simp add: trim_def dest!: set_dropWhileD)

lemma endsWith_trim_includes: "endsWith (trim s) c \<Longrightarrow> includes_str s [c]"
  using endsWith_mem[of "trim s" c] set_trim[of s] by (auto simp add: includes_str_char)

lemma tryParse_fail:
  "parse (trim (jsonContent st)) = None \<Longrightarrow> snd (tryParse parse st) = (st, [])"
  by (simp add: tryParse_def Let_def)

lemma tryParse_valid:
  assumes "startsWith (trim (jsonContent st)) (CHR ''{'')"
      and "endsWith (trim (jsonContent st)) (CHR ''}'')"
      and "parse (trim (jsonContent st)) = Some (JObj kvs)"
      and "list_all readable (elements (propOf kvs ''topics''))"
      and "list_all readable (elements (propOf kvs ''questions''))"
  shows "tryParse parse st =
     (None,
      st\<lparr>currentTopics := snd (addTopics (elements (propOf kvs ''topics'')) (currentTopics st)),
         currentQuestions :=
           snd (addQuestions (elements (propOf kvs ''questions'')) (currentQuestions st))\<rparr>,
      [snapshot
        (st\<lparr>currentTopics := snd (addTopics (elements (propOf kvs ''topics'')) (currentTopics st)),
            currentQuestions :=
              snd (addQuestions (elements (propOf kvs ''questions'')) (currentQuestions st))\<rparr>)])"
  using assms endsWith_trim_includes[OF assms(2)]
  by (simp del: getProp.simps add: tryParse_def Let_def getProp_JObj processTopics_elements
      processQuestions_elements addTopics_readable addQuestions_readable)

lemma consume_never_valid:
  assumes "\<forall>b \<in> set (jsonBuffers fragments (isJsonSection st) (jsonContent st)). parse b = None"
      and "currentTopics st = []" and "currentQuestions st = []"
  shows "currentTopics (fst (snd (consume parse (map Text fragments) st))) = [] \<and>
         currentQuestions (fst (snd (consume parse (map Text fragments) st))) = [] \<and>
         list_all (\<lambda>snap. topics snap = None \<and> questions snap = None)
           (snd (snd (consume parse (map Text fragments) st)))"
  using assms
proof (induction fragments arbitrary: st)
  case Nil
  then show ?case by simp
next
  case (Cons f fs)
  let ?p = "processChunk parse st f"
  have p: "isJsonSection (fst ?p) = (isJsonSection st \<or> includes_str f ''---'') \<and>
           jsonContent (fst ?p) =
             (if \<not> includes_str f ''---'' \<and> isJsonSection st then jsonContent st @ f
              else jsonContent st) \<and>
           currentTopics (fst ?p) = [] \<and> currentQuestions (fst ?p) = [] \<and>
           list_all (\<lambda>snap. topics snap = None \<and> questions snap = None) (snd ?p)"
  proof (cases "\<not> includes_str f ''---'' \<and> isJsonSection st")
    case True
    with Cons.prems(1) have "parse (trim (jsonContent st @ f)) = None" by simp
    from tryParse_fail[of parse "st\<lparr>jsonContent := jsonContent st @ f\<rparr>"] this
    show ?thesis using True Cons.prems(2,3) by (simp add: processChunk_def Let_def)
  next
    case False
    then show ?thesis
      using Cons.prems(2,3) by (auto simp add: processChunk_def Let_def snapshot_def)
  qed
  have b: "\<forall>b \<in> set (jsonBuffers fs (isJsonSection (fst ?p)) (jsonContent (fst ?p))). parse b = None"
    using Cons.prems(1) p by (auto split: if_splits)
  from Cons.IH[OF b] p show ?case by (simp add: Let_def)
qed

lemma tryParse_frame:
  "mainContent (fst (snd (tryParse parse st))) = mainContent st"
  "jsonContent (fst (snd (tryParse parse st))) = jsonContent st"
  "isJsonSection (fst (snd (tryParse parse st))) = isJsonSection st"
  using tryParse_state[of parse st] by auto

lemma tryParse_distinct:
  assumes "distinct (topicNames (currentTopics st))"
      and "distinct (questionTexts (currentQuestions st))"
  shows "distinct (topicNames (currentTopics (fst (snd (tryParse parse st)))))"
    and "distinct (questionTexts (currentQuestions (fst (snd (tryParse parse st)))))"
  using tryParse_state[of parse st] assms
  by (auto simp add: processTopics_distinct processQuestions_distinct)

lemma tryParse_extends:
  "prefix (currentTopics st) (currentTopics (fst (snd (tryParse parse st))))"
  "prefix (currentQuestions st) (currentQuestions (fst (snd (tryParse parse st))))"
  using tryParse_state[of parse st]
  by (auto simp add: processTopics_extends processQuestions_extends)

lemma processChunk_distinct:
  assumes "distinct (topicNames (currentTopics st))"
      and "distinct (questionTexts (currentQuestions st))"
  shows "distinct (topicNames (currentTopics (fst (processChunk parse st c))))"
    and "distinct (questionTexts (currentQuestions (fst (processChunk parse st c))))"
  using assms by (simp_all add: processChunk_def Let_def tryParse_distinct)

lemma processChunk_extends:
  "prefix (currentTopics st) (currentTopics (fst (processChunk parse st c)))"
  "prefix (currentQuestions st) (currentQuestions (fst (processChunk parse st c)))"
  using tryParse_extends[of "st\<lparr>jsonContent := jsonContent st @ c\<rparr>" parse]
  by (simp_all add: processChunk_def Let_def)

lemma processChunk_emits:
  "s \<in> set (snd (processChunk parse st c)) \<Longrightarrow> s = snapshot (fst (processChunk parse st c))"
  by (auto simp add: processChunk_def Let_def dest: tryParse_emits split: if_splits)

lemma snapshot_entries:
  "topics_of (snapshot st) = currentTopics st"
  "questions_of (snapshot st) = currentQuestions st"
  by (simp_all add: snapshot_def topics_of_def questions_of_def)

lemma consume_distinct:
  assumes "distinct (topicNames (currentTopics st))"
      and "distinct (questionTexts (currentQuestions st))"
  shows "distinct (topicNames (currentTopics (fst (snd (consume parse chunks st))))) \<and>
         distinct (questionTexts (currentQuestions (fst (snd (consume parse chunks st))))) \<and>
         (\<forall>s \<in> set (snd (snd (consume parse chunks st))).
            distinct (topicNames (topics_of s)) \<and> distinct (questionTexts (questions_of s)))"
  using assms
proof (induction parse chunks st rule: consume.induct)
  case (1 parse st)
  then show ?case by simp
next
  case (2 parse msg cs st)
  then show ?case by simp
next
  case (3 parse content cs st)
  let ?p = "processChunk parse st content"
  have d: "distinct (topicNames (currentTopics (fst ?p)))"
          "distinct (questionTexts (currentQuestions (fst ?p)))"
    using processChunk_distinct[OF "3.prems"] by simp_all
  have e: "\<forall>s \<in> set (snd ?p).
            distinct (topicNames (topics_of s)) \<and> distinct (questionTexts (questions_of s))"
  proof (intro ballI)
    fix s
    assume "s \<in> set (snd ?p)"
    then have "s = snapshot (fst ?p)"
      by (rule processChunk_emits)
    then show "distinct (topicNames (topics_of s)) \<and> distinct (questionTexts (questions_of s))"
      using d by (simp add: snapshot_entries)
  qed
  from "3.IH"[OF refl d] e show ?case
    by (auto simp add: Let_def)
qed

lemma consume_extends:
  "prefix (currentTopics st) (currentTopics (fst (snd (consume parse chunks st)))) \<and>
   prefix (currentQuestions st) (currentQuestions (fst (snd (consume parse chunks st))))"
proof (induction parse chunks st rule: consume.induct)
  case (3 parse content cs st)
  then show ?case
    using processChunk_extends[of st parse content]
    by (auto simp add: Let_def intro: prefix_order.trans)
qed simp_all

lemma consume_append_state:
  "fst (snd (consume parse (cs @ ds) st)) =
     (if fst (consume parse cs st) = None
      then fst (snd (consume parse ds (fst (snd (consume parse cs st)))))
      else fst (snd (consume parse cs st)))"
  by (induction parse cs st rule: consume.induct) (simp_all add: Let_def)

lemma consume_append_emissions:
  "snd (snd (consume parse (cs @ ds) st)) =
     snd (snd (consume parse cs st)) @
     (if fst (consume parse cs st) = None
      then snd (snd (consume parse ds (fst (snd (consume parse cs st)))))
      else [])"
  by (induction parse cs st rule: consume.induct) (simp_all add: Let_def)

lemma consume_Text_outcome: "fst (consume parse (map Text fragments) st) = None"
  by (induction fragments arbitrary: st) (simp_all add: Let_def)

text \<open>
  Claim C2 says that the text sharing a chunk with the marker \<^verbatim>\<open>---\<close> is kept: what
  is before the marker in prose, what is after it in the structured buffer. The code
  loses it. When the response \<^verbatim>\<open>Hello world\<close>, \<^verbatim>\<open>---\<close>, payload arrives as the chunk
  \<^verbatim>\<open>Hello \<close> followed by one chunk that holds \<^verbatim>\<open>world\<close>, the marker and the whole
  payload, the loop ends with \<^verbatim>\<open>mainContent\<close> still \<^verbatim>\<open>Hello \<close> and \<^verbatim>\<open>jsonContent\<close>
  empty; the only argument ever passed to \<^verbatim>\<open>onChunk\<close> has the text \<^verbatim>\<open>Hello\<close>, and no
  topic is emitted. The same response cut into the chunks \<^verbatim>\<open>Hello \<close>, \<^verbatim>\<open>world\<close>,
  \<^verbatim>\<open>---\<close>, payload ends with the text \<^verbatim>\<open>Hello world\<close> and the topic A.
\<close>

theorem marker_chunk_text_lost:
  "consume json_table [Text ''Hello '', Text (''world---'' @ payload_one_head @ '']}'')]
     initialState =
     (None,
      \<lparr>mainContent = ''Hello '', jsonContent = [], currentTopics = [], currentQuestions = [],
       isJsonSection = True\<rparr>,
      [\<lparr>text_s = ''Hello'', topics = None, questions = None\<rparr>]) \<and>
   consume json_table
     [Text ''Hello '', Text ''world'', Text ''---'', Text (payload_one_head @ '']}'')]
     initialState =
     (None,
      \<lparr>mainContent = ''Hello world'', jsonContent = payload_one_head @ '']}'',
       currentTopics = [topicA], currentQuestions = [], isJsonSection = True\<rparr>,
      [\<lparr>text_s = ''Hello'', topics = None, questions = None\<rparr>,
       \<lparr>text_s = ''Hello world'', topics = None, questions = None\<rparr>,
       \<lparr>text_s = ''Hello world'', topics = Some [topicA], questions = None\<rparr>])"
  by code_simp

text \<open>
  Claim C7: whatever chunks one run of the loop has consumed, and whatever the parser
  returned, no two entries of \<^verbatim>\<open>currentTopics\<close> have the same name and no two entries
  of \<^verbatim>\<open>currentQuestions\<close> the same text (names and texts compared by value, as all
  strings are); the same holds of the arrays in every argument passed to \<^verbatim>\<open>onChunk\<close>.
  Consuming further chunks only appends: the entries present stay, in their order, at the
  front. So an entry is appended only if its name is new, and a name fed a second time
  gives no second entry.
\<close>

theorem entries_unique:
  "distinct (topicNames (currentTopics (stateAfter parse chunks))) \<and>
   distinct (questionTexts (currentQuestions (stateAfter parse chunks))) \<and>
   list_all (\<lambda>snap. distinct (topicNames (topics_of snap)) \<and>
                    distinct (questionTexts (questions_of snap))) (emissions parse chunks) \<and>
   prefix (currentTopics (stateAfter parse chunks))
          (currentTopics (stateAfter parse (chunks @ later))) \<and>
   prefix (currentQuestions (stateAfter parse chunks))
          (currentQuestions (stateAfter parse (chunks @ later)))"
proof -
  have i: "distinct (topicNames (currentTopics initialState))"
          "distinct (questionTexts (currentQuestions initialState))"
    by (simp_all add: initialState_def topicNames_def questionTexts_def)
  have p: "prefix (currentTopics (stateAfter parse chunks))
                  (currentTopics (stateAfter parse (chunks @ later))) \<and>
           prefix (currentQuestions (stateAfter parse chunks))
                  (currentQuestions (stateAfter parse (chunks @ later)))"
    using consume_extends[of "stateAfter parse chunks" parse later]
    by (simp add: stateAfter_def consume_append_state)
  show ?thesis
    using consume_distinct[OF i, of parse chunks] p
    by (simp add: stateAfter_def emissions_def list_all_iff)
qed

text \<open>
  Claim C7 on a payload that names the topics A, B and A again, parsed a second time
  when a chunk of white space follows: the topics are A and B, once each, in the order of
  first appearance.
\<close>

theorem entries_unique_witness:
  "currentTopics (stateAfter json_table dup_chunks) = [topicA, topicB] \<and>
   distinct (topicNames [topicA, topicB]) \<and>
   emissions json_table dup_chunks =
     [\<lparr>text_s = ''Hello'', topics = None, questions = None\<rparr>,
      \<lparr>text_s = ''Hello world'', topics = None, questions = None\<rparr>,
      \<lparr>text_s = ''Hello world'', topics = Some [topicA, topicB], questions = None\<rparr>,
      \<lparr>text_s = ''Hello world'', topics = Some [topicA, topicB], questions = None\<rparr>]"
proof -
  have s: "currentTopics (stateAfter json_table dup_chunks) = [topicA, topicB]"
    by code_simp
  have e: "emissions json_table dup_chunks =
     [\<lparr>text_s = ''Hello'', topics = None, questions = None\<rparr>,
      \<lparr>text_s = ''Hello world'', topics = None, questions = None\<rparr>,
      \<lparr>text_s = ''Hello world'', topics = Some [topicA, topicB], questions = None\<rparr>,
      \<lparr>text_s = ''Hello world'', topics = Some [topicA, topicB], questions = None\<rparr>]"
    by code_simp
  show ?thesis
    using s e entries_unique[of json_table dup_chunks "[]"] by simp
qed

text \<open>
  Claim C8, as stated, fails in one part. The buffer \<^verbatim>\<open>{"topics":[null]}\<close> is valid
  JSON and \<^verbatim>\<open>JSON.parse\<close> accepts it, but reading \<^verbatim>\<open>name\<close> of its \<^verbatim>\<open>null\<close> entry
  throws a \<^verbatim>\<open>TypeError\<close>, which the same \<^verbatim>\<open>catch\<close> swallows: nothing is passed to
  \<^verbatim>\<open>onChunk\<close> for the structured part, although the buffer has become valid JSON.
\<close>

theorem valid_payload_not_emitted:
  "json_table payload_null = Some (JObj [(''topics'', JArr [JNull])]) \<and>
   consume json_table [Text ''Intro'', Text ''---'', Text payload_null] initialState =
     (None,
      \<lparr>mainContent = ''Intro'', jsonContent = payload_null, currentTopics = [],
       currentQuestions = [], isJsonSection = True\<rparr>,
      [\<lparr>text_s = ''Intro'', topics = None, questions = None\<rparr>])"
  by code_simp

text \<open>
  Claim C8, amended. (1) Whatever texts the chunks carry, the loop ends without an error.
  (2) In the JSON section, when \<^verbatim>\<open>JSON.parse\<close> rejects the buffer, the chunk's text has
  been appended to \<^verbatim>\<open>jsonContent\<close>, nothing else has changed and nothing is passed to
  \<^verbatim>\<open>onChunk\<close>. (3) When a chunk makes the trimmed buffer a text from \<^verbatim>\<open>{\<close> to
  \<^verbatim>\<open>}\<close> that \<^verbatim>\<open>JSON.parse\<close> accepts as an object whose \<^verbatim>\<open>topics\<close> and
  \<^verbatim>\<open>questions\<close> arrays hold no \<^verbatim>\<open>null\<close> entry, the snapshot with the prose text and
  the entries of that object, added to those present unless their name is present, is
  passed to \<^verbatim>\<open>onChunk\<close> at that chunk. (4) When \<^verbatim>\<open>JSON.parse\<close> rejects the buffer after
  every chunk, \<^verbatim>\<open>currentTopics\<close> and \<^verbatim>\<open>currentQuestions\<close> are empty at the end and every
  argument passed to \<^verbatim>\<open>onChunk\<close> has neither topics nor questions.
\<close>

theorem parse_failure_swallowed:
  "fst (consume parse (map Text fragments) initialState) = None \<and>
   (isJsonSection st \<and> no_marker content \<and> parse (trim (jsonContent st @ content)) = None \<longrightarrow>
      processChunk parse st content = (st\<lparr>jsonContent := jsonContent st @ content\<rparr>, [])) \<and>
   (let s0 = stateAfter parse (map Text before); buf = jsonContent s0 @ fragment
    in isJsonSection s0 \<and> no_marker fragment \<and>
       startsWith (trim buf) (CHR ''{'') \<and> endsWith (trim buf) (CHR ''}'') \<and>
       parse (trim buf) = Some (JObj kvs) \<and>
       list_all readable (elements (propOf kvs ''topics'')) \<and>
       list_all readable (elements (propOf kvs ''questions'')) \<longrightarrow>
       snapshot
         (s0\<lparr>jsonContent := buf,
             currentTopics :=
               snd (addTopics (elements (propOf kvs ''topics'')) (currentTopics s0)),
             currentQuestions :=
               snd (addQuestions (elements (propOf kvs ''questions'')) (currentQuestions s0))\<rparr>)
         \<in> set (emissions parse (map Text (before @ fragment # after)))) \<and>
   ((\<forall>b \<in> set (jsonBuffers fragments False []). parse b = None) \<longrightarrow>
      currentTopics (stateAfter parse (map Text fragments)) = [] \<and>
      currentQuestions (stateAfter parse (map Text fragments)) = [] \<and>
      list_all (\<lambda>snap. topics snap = None \<and> questions snap = None)
        (emissions parse (map Text fragments)))"
proof (intro conjI)
  show "fst (consume parse (map Text fragments) initialState) = None"
    by (rule consume_Text_outcome)
next
  show "isJsonSection st \<and> no_marker content \<and>
        parse (trim (jsonContent st @ content)) = None \<longrightarrow>
        processChunk parse st content = (st\<lparr>jsonContent := jsonContent st @ content\<rparr>, [])"
    using tryParse_fail[of parse "st\<lparr>jsonContent := jsonContent st @ content\<rparr>"]
    by (simp add: processChunk_def no_marker_def Let_def)
next
  define s0 where "s0 = stateAfter parse (map Text before)"
  define buf where "buf = jsonContent s0 @ fragment"
  define s1 where "s1 = s0\<lparr>jsonContent := buf,
             currentTopics :=
               snd (addTopics (elements (propOf kvs ''topics'')) (currentTopics s0)),
             currentQuestions :=
               snd (addQuestions (elements (propOf kvs ''questions'')) (currentQuestions s0))\<rparr>"
  have "snapshot s1 \<in> set (emissions parse (map Text (before @ fragment # after)))"
    if h: "isJsonSection s0" "no_marker fragment"
       "startsWith (trim buf) (CHR ''{'')" "endsWith (trim buf) (CHR ''}'')"
       "parse (trim buf) = Some (JObj kvs)"
       "list_all readable (elements (propOf kvs ''topics''))"
       "list_all readable (elements (propOf kvs ''questions''))"
  proof -
    have t: "tryParse parse (s0\<lparr>jsonContent := buf\<rparr>) = (None, s1, [snapshot s1])"
      using tryParse_valid[of "s0\<lparr>jsonContent := buf\<rparr>" parse kvs] h
      by (simp add: s1_def)
    have p: "processChunk parse s0 fragment = (s1, [snapshot s1])"
      using h(1,2) t by (simp add: processChunk_def no_marker_def Let_def buf_def)
    show ?thesis
      using p
      by (simp add: emissions_def consume_append_emissions consume_Text_outcome Let_def
          s0_def[symmetric] stateAfter_def[symmetric])
  qed
  then show "let s0 = stateAfter parse (map Text before); buf = jsonContent s0 @ fragment
    in isJsonSection s0 \<and> no_marker fragment \<and>
       startsWith (trim buf) (CHR ''{'') \<and> endsWith (trim buf) (CHR ''}'') \<and>
       parse (trim buf) = Some (JObj kvs) \<and>
       list_all readable (elements (propOf kvs ''topics'')) \<and>
       list_all readable (elements (propOf kvs ''questions'')) \<longrightarrow>
       snapshot
         (s0\<lparr>jsonContent := buf,
             currentTopics :=
               snd (addTopics (elements (propOf kvs ''topics'')) (currentTopics s0)),
             currentQuestions :=
               snd (addQuestions (elements (propOf kvs ''questions'')) (currentQuestions s0))\<rparr>)
         \<in> set (emissions parse (map Text (before @ fragment # after)))"
    by (simp add: Let_def s0_def buf_def s1_def)
next
  show "(\<forall>b \<in> set (jsonBuffers fragments False []). parse b = None) \<longrightarrow>
      currentTopics (stateAfter parse (map Text fragments)) = [] \<and>
      currentQuestions (stateAfter parse (map Text fragments)) = [] \<and>
      list_all (\<lambda>snap. topics snap = None \<and> questions snap = None)
        (emissions parse (map Text fragments))"
    using consume_never_valid[of fragments initialState parse]
    by (simp add: stateAfter_def emissions_def initialState_def)
qed

text \<open>
  The amended claim C8 on a payload that arrives in two chunks: after the first the
  buffer ends with \<^verbatim>\<open>}\<close> and is rejected by the parser, which is swallowed; after the
  second it is valid and the snapshot with the topic A is emitted. Cut before the second
  chunk, the sequence never gives a valid buffer and leaves no topics.
\<close>

theorem parse_failure_swallowed_witness:
  "fst (consume json_table (map Text split_fragments) initialState) = None \<and>
   processChunk json_table (stateAfter json_table (map Text (take 3 split_fragments)))
       payload_one_head =
     (\<lparr>mainContent = ''Hello world'', jsonContent = payload_one_head, currentTopics = [],
       currentQuestions = [], isJsonSection = True\<rparr>, []) \<and>
   \<lparr>text_s = ''Hello world'', topics = Some [topicA], questions = None\<rparr>
     \<in> set (emissions json_table (map Text split_fragments)) \<and>
   currentTopics (stateAfter json_table (map Text (take 4 split_fragments))) = [] \<and>
   list_all (\<lambda>snap. topics snap = None \<and> questions snap = None)
     (emissions json_table (map Text (take 4 split_fragments)))"
proof -
  let ?s3 = "stateAfter json_table (map Text (take 3 split_fragments))"
  let ?s4 = "stateAfter json_table (map Text (take 4 split_fragments))"
  let ?kvs = "[(''topics'', JArr [entryA])]"
  have s3: "?s3 = \<lparr>mainContent = ''Hello world'', jsonContent = [], currentTopics = [],
       currentQuestions = [], isJsonSection = True\<rparr>"
    by code_simp
  have b: "isJsonSection ?s3 \<and> no_marker payload_one_head \<and>
           json_table (trim (jsonContent ?s3 @ payload_one_head)) = None"
    by code_simp
  have c: "isJsonSection ?s4 \<and> no_marker '']}'' \<and>
           startsWith (trim (jsonContent ?s4 @ '']}'')) (CHR ''{'') \<and>
           endsWith (trim (jsonContent ?s4 @ '']}'')) (CHR ''}'') \<and>
           json_table (trim (jsonContent ?s4 @ '']}'')) = Some (JObj ?kvs) \<and>
           list_all readable (elements (propOf ?kvs ''topics'')) \<and>
           list_all readable (elements (propOf ?kvs ''questions''))"
    by code_simp
  have d: "\<forall>b \<in> set (jsonBuffers (take 4 split_fragments) False []). json_table b = None"
    by code_simp
  have snap: "snapshot
         (?s4\<lparr>jsonContent := jsonContent ?s4 @ '']}'',
             currentTopics :=
               snd (addTopics (elements (propOf ?kvs ''topics'')) (currentTopics ?s4)),
             currentQuestions :=
               snd (addQuestions (elements (propOf ?kvs ''questions'')) (currentQuestions ?s4))\<rparr>)
        = \<lparr>text_s = ''Hello world'', topics = Some [topicA], questions = None\<rparr>"
    by code_simp
  have whole: "take 4 split_fragments @ '']}'' # [] = split_fragments"
    by code_simp
  note t1 = parse_failure_swallowed[where parse = json_table and fragments = split_fragments
      and st = ?s3 and content = payload_one_head and before = "take 4 split_fragments"
      and fragment = "'']}''" and kvs = ?kvs and after = "[]"]
  note t2 = parse_failure_swallowed[where parse = json_table
      and fragments = "take 4 split_fragments"]
  have 1: "fst (consume json_table (map Text split_fragments) initialState) = None"
    using t1 by blast
  have 2: "processChunk json_table ?s3 payload_one_head =
             (?s3\<lparr>jsonContent := jsonContent ?s3 @ payload_one_head\<rparr>, [])"
    using t1 b by blast
  have 3: "\<lparr>text_s = ''Hello world'', topics = Some [topicA], questions = None\<rparr>
             \<in> set (emissions json_table (map Text split_fragments))"
    using t1 c unfolding Let_def snap whole by blast
  have 4: "currentTopics ?s4 = [] \<and>
           list_all (\<lambda>snap. topics snap = None \<and> questions snap = None)
             (emissions json_table (map Text (take 4 split_fragments)))"
    using t2 d by blast
  show ?thesis
    using 1 2 3 4 by (simp add: s3)
qed

end
